theory Spec2Isabelle
  imports Main
begin

section \<open>The playback example of the ARI client\<close>

text \<open>
  The program is \<^verbatim>\<open>examples/playback.js\<close>: it connects to the server, answers
  the first channel that enters Stasis, plays a sound on it, and lets DTMF digits control
  the playback. It is written in callback-passing style. The model makes every callback of
  the script a function on a \<open>world\<close>, the state the script can observe or change through
  the client: the operations it has issued, the outstanding requests and their callbacks,
  the registered listeners, the error log and the exit status of the process.

  A completion callback receives the error or the result, never both: when connect
  fails its callback has no client, and when play fails its callback has no Playback
  (\<open>None\<close> is \<open>undefined\<close>). The script never tests \<open>err\<close>; calling a method on
  \<open>undefined\<close> throws a TypeError, which nothing in the script catches.
\<close>

subsection \<open>Data\<close>

type_synonym channel = string
  \<comment> \<open>a Channel handle, identified by its channel id\<close>

type_synonym playback = nat
  \<comment> \<open>a Playback handle, identified by the id allocated by the client\<close>

datatype client = Client
  \<comment> \<open>the handle \<open>ari\<close> of the session that connect hands to its callback\<close>

datatype js_exception = TypeError
  \<comment> \<open>thrown by a method call on \<open>undefined\<close>\<close>

text \<open>The states of a playback (spec, section 4.4); Stopped and Finished are terminal.\<close>

datatype pstate = Created | Playing | Paused | Stopped | Finished

fun terminal :: "pstate \<Rightarrow> bool" where
  "terminal Stopped = True"
| "terminal Finished = True"
| "terminal _ = False"

text \<open>The fields of an event object that the script reads or that route the event.\<close>

record event =
  ev_type :: string
  ev_channel :: channel
  ev_digit :: string
  ev_playback :: "playback option"

text \<open>The \<open>err\<close> argument of a completion callback: \<open>None\<close> is \<open>null\<close>.\<close>

datatype error =
    ConnectionError
  | RequestError nat string
  | Timeout
  | SessionClosed
  | InvalidArgument
  | InvalidState
  | UnknownApplication

text \<open>
  The operations the script issues through the client, with the arguments of the call
  in the source: \<open>client.connect(url, user, secret, cb)\<close>, \<open>ari.start(app)\<close>,
  \<open>incoming.answer(cb)\<close>, \<open>incoming.play({media: m}, playback, cb)\<close>,
  \<open>playback.control({operation: op}, cb)\<close>, \<open>incoming.hangup(cb)\<close>.
\<close>

datatype request =
    Connect string string string
  | Start string
  | Answer channel
  | Play channel string playback
  | Control playback string
  | Hangup channel

text \<open>
  The function values of the script, as closures: each constructor names one function
  expression of the source and carries the variables it captures.
\<close>

datatype callback =
    CbConnect
      \<comment> \<open>\<open>connectCallback\<close>, line 31\<close>
  | CbStasisStart
      \<comment> \<open>\<open>stasisStartCallback\<close>, line 45\<close>
  | CbAnswer channel
      \<comment> \<open>\<open>channelAnswerCallback\<close>, line 56, capturing \<open>incoming\<close>\<close>
  | CbPlay channel
      \<comment> \<open>the callback given to \<open>play\<close>, line 64, capturing \<open>incoming\<close>\<close>
  | CbDtmf "playback option" channel
      \<comment> \<open>\<open>channelDtmfReceivedCallback\<close>, line 96, capturing \<open>incoming\<close> and the
         \<open>playback\<close> parameter of \<open>registerDtmfListeners\<close>, which is \<open>undefined\<close>
         when play has failed\<close>
  | CbControl
      \<comment> \<open>\<open>function(err) {}\<close>, lines 102 to 117\<close>
  | CbHangup
      \<comment> \<open>\<open>function (err) { process.exit(0); }\<close>, line 118\<close>

record world =
  sent :: "request list"
    \<comment> \<open>the operations issued so far, oldest first\<close>
  pending :: "(nat \<times> request \<times> callback) list"
    \<comment> \<open>outstanding requests: correlation id, request, completion callback\<close>
  next_id :: nat
    \<comment> \<open>the next correlation id\<close>
  once_listeners :: "(string \<times> callback) list"
    \<comment> \<open>listeners registered with \<open>ari.once\<close>, by event type\<close>
  chan_listeners :: "(channel \<times> string \<times> callback) list"
    \<comment> \<open>listeners registered with \<open>on\<close> of a Channel handle\<close>
  registry :: "playback list"
    \<comment> \<open>the Playback handles registered with the client\<close>
  playback_states :: "(playback \<times> pstate) list"
    \<comment> \<open>the last known state of each playback: its newest entry, entries newest first\<close>
  next_playback :: nat
    \<comment> \<open>the next Playback id the factory hands out\<close>
  apps :: "string list"
    \<comment> \<open>the application names the session has registered\<close>
  failures :: "error list"
    \<comment> \<open>local validation failures raised by operations\<close>
  stderr :: "string list"
    \<comment> \<open>the lines written with \<open>console.error\<close>\<close>
  uncaught :: "js_exception option"
    \<comment> \<open>the exception that ended the process, if one did\<close>
  exit_status :: "int option"
    \<comment> \<open>\<open>Some n\<close> once the process has ended with exit code \<open>n\<close>\<close>

datatype input =
    Completed nat "error option"
      \<comment> \<open>the outstanding request with this correlation id completes, with or without error\<close>
  | Event event
      \<comment> \<open>the server sends an event\<close>

subsection \<open>The client operations the script calls\<close>

text \<open>
  Modelled from the spec: the client library (\<^verbatim>\<open>lib/\<close> of the repository) is not
  part of the sources at hand. \<open>sendRequest\<close> stores a pending operation under a fresh
  correlation id and transmits the request (section 4.1).
\<close>

definition sendRequest :: "request \<Rightarrow> callback \<Rightarrow> world \<Rightarrow> world" where
  "sendRequest r cb w =
     w\<lparr>sent := sent w @ [r],
       pending := pending w @ [(next_id w, r, cb)],
       next_id := Suc (next_id w)\<rparr>"

definition connect :: "string \<Rightarrow> string \<Rightarrow> string \<Rightarrow> callback \<Rightarrow> world \<Rightarrow> world" where
  "connect url user secret cb w = sendRequest (Connect url user secret) cb w"

text \<open>
  Modelled from the spec: \<open>start\<close> registers an application name; registering a name that
  is registered already is a no-op (section 4.5). It takes no callback in the script.
\<close>

definition start :: "string \<Rightarrow> world \<Rightarrow> world" where
  "start app w =
     (if app \<in> set (apps w) then w
      else w\<lparr>sent := sent w @ [Start app], apps := apps w @ [app]\<rparr>)"

text \<open>
  \<open>once\<close> and \<open>on\<close> are the listener registrations of Node's event emitters: a listener
  added with \<open>once\<close> is removed when its event is emitted for the first time.
\<close>

definition once :: "string \<Rightarrow> callback \<Rightarrow> world \<Rightarrow> world" where
  "once t cb w = w\<lparr>once_listeners := once_listeners w @ [(t, cb)]\<rparr>"

definition on :: "channel \<Rightarrow> string \<Rightarrow> callback \<Rightarrow> world \<Rightarrow> world" where
  "on ch t cb w = w\<lparr>chan_listeners := chan_listeners w @ [(ch, t, cb)]\<rparr>"

definition answer :: "channel \<Rightarrow> callback \<Rightarrow> world \<Rightarrow> world" where
  "answer ch cb w = sendRequest (Answer ch) cb w"

definition hangup :: "channel \<Rightarrow> callback \<Rightarrow> world \<Rightarrow> world" where
  "hangup ch cb w = sendRequest (Hangup ch) cb w"

text \<open>
  Modelled from the spec: the state machine of a playback in the absent client library
  (section 4.4): Created, then Playing, then Paused and Playing in turn, then Stopped or
  Finished, which are terminal. The client keeps the last known state of each handle. An
  operation moves the state when it is issued; an operation the state machine has no
  edge for (pause on a paused playback, reverse, forward, restart) leaves the state as it
  is and is sent all the same.
\<close>

definition playback_state :: "world \<Rightarrow> playback \<Rightarrow> pstate option" where
  "playback_state w pb = map_of (playback_states w) pb"

definition is_terminal :: "world \<Rightarrow> playback \<Rightarrow> bool" where
  "is_terminal w pb = (case playback_state w pb of None \<Rightarrow> False | Some s \<Rightarrow> terminal s)"

definition set_state :: "playback \<Rightarrow> pstate \<Rightarrow> world \<Rightarrow> world" where
  "set_state pb s w = w\<lparr>playback_states := (pb, s) # playback_states w\<rparr>"

definition next_state :: "pstate \<Rightarrow> string \<Rightarrow> pstate" where
  "next_state s operation =
     (if terminal s then s
      else if operation = ''stop'' then Stopped
      else if operation = ''pause'' \<and> s = Playing then Paused
      else if operation = ''unpause'' \<and> s = Paused then Playing
      else s)"

definition transition :: "playback \<Rightarrow> string \<Rightarrow> world \<Rightarrow> world" where
  "transition pb operation w =
     (case playback_state w pb of
        None \<Rightarrow> w
      | Some s \<Rightarrow> set_state pb (next_state s operation) w)"

text \<open>
  Modelled from the spec: the factory \<open>ari.Playback()\<close> of the absent client library
  allocates a Playback handle with a fresh id on the client side, in state Created.
\<close>

definition Playback :: "world \<Rightarrow> playback \<times> world" where
  "Playback w =
     (next_playback w,
      set_state (next_playback w) Created (w\<lparr>next_playback := Suc (next_playback w)\<rparr>))"

text \<open>
  Modelled from the spec: \<open>play\<close> of the absent client library registers the handle it is
  given before it sends the request, and the playback is then Playing (sections 4.4
  and 8).
\<close>

definition play :: "channel \<Rightarrow> string \<Rightarrow> playback \<Rightarrow> callback \<Rightarrow> world \<Rightarrow> world" where
  "play ch media pb cb w =
     sendRequest (Play ch media pb) cb
       (set_state pb Playing (w\<lparr>registry := registry w @ [pb]\<rparr>))"

text \<open>
  Modelled from the spec: \<open>control\<close> of the absent client library accepts exactly the
  operations pause, unpause, reverse, forward, restart and stop; any other value fails with
  \<open>InvalidArgument\<close>, and any operation on a playback in a terminal state fails with
  \<open>InvalidState\<close>. Both are local validation failures: no request is sent and the
  caller has the failure at once (sections 4.4 and 7). The script passes
  \<open>function(err) {}\<close> to every call of control and reads no result of it, so the
  caller goes on; the model records the failure in \<open>failures\<close>.
\<close>

definition control_operations :: "string list" where
  "control_operations =
     [''pause'', ''unpause'', ''reverse'', ''forward'', ''restart'', ''stop'']"

definition control :: "playback \<Rightarrow> string \<Rightarrow> callback \<Rightarrow> world \<Rightarrow> world" where
  "control pb operation cb w =
     (if operation \<notin> set control_operations
      then w\<lparr>failures := failures w @ [InvalidArgument]\<rparr>
      else if is_terminal w pb
      then w\<lparr>failures := failures w @ [InvalidState]\<rparr>
      else sendRequest (Control pb operation) cb (transition pb operation w))"

subsection \<open>Node built-ins the script calls\<close>

text \<open>
  \<open>util.format\<close> with one argument, for the placeholder \<open>%s\<close> only: the first \<open>%s\<close> is
  replaced by the argument; an argument that no placeholder takes is appended after a
  space.
\<close>

fun util_format :: "string \<Rightarrow> string \<Rightarrow> string" where
  "util_format [] a = CHR '' '' # a"
| "util_format [c] a = c # CHR '' '' # a"
| "util_format (c # d # rest) a =
     (if c = CHR ''%'' \<and> d = CHR ''s'' then a @ rest
      else c # util_format (d # rest) a)"

definition console_error :: "string \<Rightarrow> world \<Rightarrow> world" where
  "console_error line w = w\<lparr>stderr := stderr w @ [line]\<rparr>"

definition process_exit :: "int \<Rightarrow> world \<Rightarrow> world" where
  "process_exit n w = w\<lparr>exit_status := Some n\<rparr>"

text \<open>
  An exception that nothing catches ends the process: Node reports it and exits with a
  code that is not 0 (code 1, for an uncaught fatal exception). The statements after the
  throw do not run. The script has no \<open>try\<close>, and neither the spec nor the script
  gives the client a handler for what a callback throws.
\<close>

definition throw :: "js_exception \<Rightarrow> world \<Rightarrow> world" where
  "throw e w = w\<lparr>uncaught := Some e, exit_status := Some 1\<rparr>"

subsection \<open>The callbacks of the script\<close>

definition controlCallback :: "error option \<Rightarrow> world \<Rightarrow> world" where
  "controlCallback err w = w"

definition hangupCallback :: "error option \<Rightarrow> world \<Rightarrow> world" where
  "hangupCallback err w = process_exit 0 w"

text \<open>
  The method call \<open>playback.control({operation: op}, cb)\<close> of the listener: it throws
  when \<open>playback\<close> is \<open>undefined\<close>.
\<close>

definition playback_control ::
    "playback option \<Rightarrow> string \<Rightarrow> callback \<Rightarrow> world \<Rightarrow> world" where
  "playback_control playback operation cb w =
     (case playback of
        None \<Rightarrow> throw TypeError w
      | Some pb \<Rightarrow> control pb operation cb w)"

text \<open>
  In the branch of \<open>#\<close> the call of \<open>hangup\<close> follows the call of \<open>control\<close>, and does
  not run when that call has thrown.
\<close>

definition channelDtmfReceivedCallback ::
    "playback option \<Rightarrow> channel \<Rightarrow> event \<Rightarrow> channel \<Rightarrow> world \<Rightarrow> world" where
  "channelDtmfReceivedCallback playback incoming event channel w =
     (let digit = ev_digit event in
      if digit = ''5'' then playback_control playback ''pause'' CbControl w
      else if digit = ''8'' then playback_control playback ''unpause'' CbControl w
      else if digit = ''4'' then playback_control playback ''reverse'' CbControl w
      else if digit = ''6'' then playback_control playback ''forward'' CbControl w
      else if digit = ''2'' then playback_control playback ''restart'' CbControl w
      else if digit = ''#'' then
        (case playback of
           None \<Rightarrow> throw TypeError w
         | Some pb \<Rightarrow> hangup incoming CbHangup (control pb ''stop'' CbControl w))
      else console_error (util_format ''Unknown DTMF %s'' digit) w)"

definition registerDtmfListeners ::
    "error option \<Rightarrow> playback option \<Rightarrow> channel \<Rightarrow> world \<Rightarrow> world" where
  "registerDtmfListeners err playback incoming w =
     on incoming ''ChannelDtmfReceived'' (CbDtmf playback incoming) w"

text \<open>
  The callback given to \<open>play\<close> (line 64). Its parameter \<open>playback\<close> hides the variable
  of line 58: the listener gets what the completion of play hands over.
\<close>

definition playCallback ::
    "channel \<Rightarrow> error option \<Rightarrow> playback option \<Rightarrow> world \<Rightarrow> world" where
  "playCallback incoming err playback w = registerDtmfListeners err playback incoming w"

definition channelAnswerCallback :: "channel \<Rightarrow> error option \<Rightarrow> world \<Rightarrow> world" where
  "channelAnswerCallback incoming err w =
     (let (playback, w1) = Playback w in
      play incoming ''sound:demo-congrats'' playback (CbPlay incoming) w1)"

definition stasisStartCallback :: "event \<Rightarrow> channel \<Rightarrow> world \<Rightarrow> world" where
  "stasisStartCallback event incoming w = answer incoming (CbAnswer incoming) w"

text \<open>
  The first statement of the connect callback is \<open>ari.once(...)\<close> (line 34): it throws
  when \<open>ari\<close> is \<open>undefined\<close>, and then neither the listener nor the application is
  registered.
\<close>

definition connectCallback :: "error option \<Rightarrow> client option \<Rightarrow> world \<Rightarrow> world" where
  "connectCallback err ari w =
     (case ari of
        None \<Rightarrow> throw TypeError w
      | Some a \<Rightarrow> start ''playback-example'' (once ''StasisStart'' CbStasisStart w))"

text \<open>The script itself: its only statement is the call of \<open>client.connect\<close>.\<close>

definition main :: "world \<Rightarrow> world" where
  "main w = connect ''http://ari.js:8088'' ''user'' ''secret'' CbConnect w"

subsection \<open>Delivery of completions and events\<close>

text \<open>
  Modelled from the spec: the dispatch of the absent client library. A completion removes
  the pending operation and invokes its callback with the typed result or with the error
  (section 4.4): the callback of connect receives the client, and the callback of
  \<open>play\<close> the Playback handle the request carried, only when there is no error. An
  event goes first to the listeners of the client for its type, then to the listeners of
  the Channel handle it refers to, in registration order; a PlaybackFinished event is
  terminal, and after the listeners have run the playback is Finished and its handle
  leaves the registry (section 4.3). Nothing runs once the process has ended.
\<close>

definition result :: "error option \<Rightarrow> 'a \<Rightarrow> 'a option" where
  "result err x = (case err of None \<Rightarrow> Some x | Some e \<Rightarrow> None)"

definition complete :: "callback \<Rightarrow> request \<Rightarrow> error option \<Rightarrow> world \<Rightarrow> world" where
  "complete cb req err w =
     (case cb of
        CbConnect \<Rightarrow> connectCallback err (result err Client) w
      | CbAnswer incoming \<Rightarrow> channelAnswerCallback incoming err w
      | CbPlay incoming \<Rightarrow>
          (case req of
             Play ch media pb \<Rightarrow> playCallback incoming err (result err pb) w
           | _ \<Rightarrow> w)
      | CbControl \<Rightarrow> controlCallback err w
      | CbHangup \<Rightarrow> hangupCallback err w
      | _ \<Rightarrow> w)"

definition emit :: "callback \<Rightarrow> event \<Rightarrow> world \<Rightarrow> world" where
  "emit cb ev w =
     (if exit_status w \<noteq> None then w
      else case cb of
        CbStasisStart \<Rightarrow> stasisStartCallback ev (ev_channel ev) w
      | CbDtmf pb incoming \<Rightarrow> channelDtmfReceivedCallback pb incoming ev (ev_channel ev) w
      | _ \<Rightarrow> w)"

definition listeners_for :: "event \<Rightarrow> world \<Rightarrow> callback list" where
  "listeners_for ev w =
     map snd (filter (\<lambda>(t, cb). t = ev_type ev) (once_listeners w)) @
     map (\<lambda>(c, t, cb). cb)
       (filter (\<lambda>(c, t, cb). c = ev_channel ev \<and> t = ev_type ev) (chan_listeners w))"

definition finish :: "event \<Rightarrow> world \<Rightarrow> world" where
  "finish ev w =
     (if exit_status w \<noteq> None \<or> ev_type ev \<noteq> ''PlaybackFinished'' then w
      else case ev_playback ev of
        None \<Rightarrow> w
      | Some pb \<Rightarrow>
          (if pb \<in> set (registry w)
           then set_state pb Finished (w\<lparr>registry := removeAll pb (registry w)\<rparr>)
           else w))"

definition dispatch :: "event \<Rightarrow> world \<Rightarrow> world" where
  "dispatch ev w =
     finish ev
       (foldl (\<lambda>w' cb. emit cb ev w')
          (w\<lparr>once_listeners := filter (\<lambda>(t, cb). t \<noteq> ev_type ev) (once_listeners w)\<rparr>)
          (listeners_for ev w))"

definition step :: "input \<Rightarrow> world \<Rightarrow> world" where
  "step i w =
     (if exit_status w \<noteq> None then w
      else case i of
        Completed k err \<Rightarrow>
          (case map_of (pending w) k of
             None \<Rightarrow> w
           | Some (req, cb) \<Rightarrow>
               complete cb req err (w\<lparr>pending := filter (\<lambda>(k', _). k' \<noteq> k) (pending w)\<rparr>))
      | Event ev \<Rightarrow> dispatch ev w)"

definition run :: "input list \<Rightarrow> world \<Rightarrow> world" where
  "run ins w = foldl (\<lambda>w' i. step i w') w ins"

definition empty_world :: world where
  "empty_world =
     \<lparr>sent = [], pending = [], next_id = 0, once_listeners = [], chan_listeners = [],
      registry = [], playback_states = [], next_playback = 0, apps = [], failures = [],
      stderr = [], uncaught = None, exit_status = None\<rparr>"

definition boot :: world where
  "boot = main empty_world"

text \<open>The operations a step issues: what it appends to \<open>sent\<close>.\<close>

definition issued :: "input \<Rightarrow> world \<Rightarrow> request list" where
  "issued i w = drop (length (sent w)) (sent (step i w))"

subsection \<open>Events and a reference run\<close>

text \<open>
  The two kinds of event the script listens to, and the terminal event of a playback. A
  StasisStart event has no digit; the script never reads the field of one. The channel
  of a PlaybackFinished event is the one the playback ran on.
\<close>

definition StasisStart :: "channel \<Rightarrow> event" where
  "StasisStart c =
     \<lparr>ev_type = ''StasisStart'', ev_channel = c, ev_digit = [], ev_playback = None\<rparr>"

definition ChannelDtmfReceived :: "channel \<Rightarrow> string \<Rightarrow> event" where
  "ChannelDtmfReceived c d =
     \<lparr>ev_type = ''ChannelDtmfReceived'', ev_channel = c, ev_digit = d, ev_playback = None\<rparr>"

definition PlaybackFinished :: "channel \<Rightarrow> playback \<Rightarrow> event" where
  "PlaybackFinished c pb =
     \<lparr>ev_type = ''PlaybackFinished'', ev_channel = c, ev_digit = [], ev_playback = Some pb\<rparr>"

text \<open>
  The world once the connection is up, and the world in which channel \<open>c1\<close> has entered
  Stasis, has been answered and plays the sound, with the DTMF listener registered.
\<close>

definition connected :: world where
  "connected = run [Completed 0 None] boot"

definition playing :: world where
  "playing = run [Completed 0 None, Event (StasisStart ''c1''), Completed 1 None,
                  Completed 2 None] boot"

text \<open>The same run when play fails: the listener is registered without a handle.\<close>

definition play_failed :: world where
  "play_failed = run [Completed 0 None, Event (StasisStart ''c1''), Completed 1 None,
                      Completed 2 (Some Timeout)] boot"

subsection \<open>The invariant of the reachable worlds\<close>

text \<open>Every outstanding request carries the callback the script gave to its kind.\<close>

fun cb_ok :: "request \<Rightarrow> callback \<Rightarrow> bool" where
  "cb_ok (Connect u n s) cb = (cb = CbConnect)"
| "cb_ok (Start a) cb = False"
| "cb_ok (Answer c) cb = (cb = CbAnswer c)"
| "cb_ok (Play c m p) cb = (cb = CbPlay c)"
| "cb_ok (Control p operation) cb = (cb = CbControl)"
| "cb_ok (Hangup c) cb = (cb = CbHangup)"

text \<open>
  The callbacks that carry the entry flow forward: connect, then the StasisStart
  listener, then answer, then play, then the DTMF listener. The flow is in one place at
  a time, which \<open>tokens\<close> counts.
\<close>

fun is_flow :: "callback \<Rightarrow> bool" where
  "is_flow CbConnect = True"
| "is_flow (CbAnswer c) = True"
| "is_flow (CbPlay c) = True"
| "is_flow _ = False"

fun req_ok :: "nat \<Rightarrow> request \<Rightarrow> bool" where
  "req_ok n (Control pb operation) = (operation \<in> set control_operations)"
| "req_ok n (Play c m p) = (p < n)"
| "req_ok n _ = True"

definition tokens :: "world \<Rightarrow> nat" where
  "tokens w = length (filter (\<lambda>(k, r, cb). is_flow cb) (pending w))
     + length (once_listeners w) + length (chan_listeners w)"

definition wf_world :: "world \<Rightarrow> bool" where
  "wf_world w \<longleftrightarrow>
     (\<forall>(k, r, cb) \<in> set (pending w). k < next_id w \<and> cb_ok r cb \<and> r \<in> set (sent w)) \<and>
     (\<forall>(t, cb) \<in> set (once_listeners w). t = ''StasisStart'' \<and> cb = CbStasisStart) \<and>
     (\<forall>(c, t, cb) \<in> set (chan_listeners w).
         t = ''ChannelDtmfReceived'' \<and> (\<exists>pb. cb = CbDtmf pb c)) \<and>
     tokens w \<le> 1 \<and>
     (\<forall>p \<in> set (registry w). p < next_playback w) \<and>
     InvalidArgument \<notin> set (failures w) \<and>
     (\<forall>r \<in> set (sent w). req_ok (next_playback w) r)"

subsection \<open>Observations on inputs and worlds\<close>

text \<open>
  The StasisStart events among the inputs, the answer requests among the operations
  issued, and the worlds in which neither the connect callback nor the StasisStart
  listener can run any more.
\<close>

fun is_StasisStart :: "input \<Rightarrow> bool" where
  "is_StasisStart (Event ev) = (ev_type ev = ''StasisStart'')"
| "is_StasisStart (Completed k err) = False"

fun is_Answer :: "request \<Rightarrow> bool" where
  "is_Answer (Answer c) = True"
| "is_Answer _ = False"

definition answers :: "world \<Rightarrow> request list" where
  "answers w = filter is_Answer (sent w)"

definition quiet :: "world \<Rightarrow> bool" where
  "quiet w \<longleftrightarrow> once_listeners w = [] \<and> (\<forall>(k, r, cb) \<in> set (pending w). cb \<noteq> CbConnect)"

text \<open>A step adds no play request when the operations it issues contain none.\<close>

fun is_Play :: "request \<Rightarrow> bool" where
  "is_Play (Play c m p) = True"
| "is_Play _ = False"

definition adds_no_play :: "world \<Rightarrow> world \<Rightarrow> bool" where
  "adds_no_play w w' \<longleftrightarrow> (\<exists>new. sent w' = sent w @ new \<and> (\<forall>r \<in> set new. \<not> is_Play r))"


text \<open>The digits whose branch of the switch calls a method of \<open>playback\<close>.\<close>

definition control_digits :: "string list" where
  "control_digits = [''5'', ''8'', ''4'', ''6'', ''2'', ''#'']"
section \<open>Properties\<close>

subsection \<open>Unfolding\<close>

lemmas state_defs = playback_state_def is_terminal_def set_state_def next_state_def
  transition_def

lemmas op_defs = sendRequest_def connect_def start_def once_def on_def answer_def hangup_def
  Playback_def play_def control_def control_operations_def console_error_def process_exit_def
  throw_def state_defs

lemmas cb_defs = controlCallback_def hangupCallback_def playback_control_def
  channelDtmfReceivedCallback_def registerDtmfListeners_def playCallback_def
  channelAnswerCallback_def stasisStartCallback_def connectCallback_def

lemmas run_defs = run_def boot_def main_def empty_world_def step_def complete_def result_def
  emit_def finish_def dispatch_def listeners_for_def issued_def StasisStart_def
  ChannelDtmfReceived_def PlaybackFinished_def op_defs cb_defs

lemma playing_eq:
  "playing =
     \<lparr>sent = [Connect ''http://ari.js:8088'' ''user'' ''secret'', Start ''playback-example'',
              Answer ''c1'', Play ''c1'' ''sound:demo-congrats'' 0],
      pending = [], next_id = 3, once_listeners = [],
      chan_listeners = [(''c1'', ''ChannelDtmfReceived'', CbDtmf (Some 0) ''c1'')],
      registry = [0], playback_states = [(0, Playing), (0, Created)], next_playback = 1,
      apps = [''playback-example''], failures = [], stderr = [], uncaught = None,
      exit_status = None\<rparr>"
  by (simp add: playing_def run_defs)

lemma play_failed_eq:
  "play_failed = playing\<lparr>chan_listeners := [(''c1'', ''ChannelDtmfReceived'', CbDtmf None ''c1'')]\<rparr>"
  by (simp add: playing_eq) (simp add: play_failed_def run_defs)

subsection \<open>The invariant holds in every reachable world\<close>

lemma filter_remove_less:
  "x \<in> set xs \<Longrightarrow> P x \<Longrightarrow> \<not> Q x \<Longrightarrow> length (filter P (filter Q xs)) < length (filter P xs)"
proof (induction xs)
  case Nil then show ?case by simp
next
  case (Cons y ys)
  have le: "length (filter P (filter Q ys)) \<le> length (filter P ys)"
    by (induction ys) auto
  show ?case using Cons le by (cases "x = y") auto
qed

lemma req_ok_mono: "req_ok n r \<Longrightarrow> req_ok (Suc n) r"
  by (cases r) auto

lemma wf_boot: "wf_world boot"
  by (simp add: wf_world_def boot_def main_def empty_world_def op_defs tokens_def)

lemma wf_set_state: "wf_world (set_state pb s w) = wf_world w"
  by (simp add: wf_world_def set_state_def tokens_def)

lemma wf_transition: "wf_world (transition pb operation w) = wf_world w"
  by (simp add: transition_def wf_set_state split: option.split)

lemma wf_throw: "wf_world (throw e w) = wf_world w"
  by (simp add: wf_world_def throw_def tokens_def)

lemma filter_remove_le:
  "length (filter P (filter Q xs)) \<le> length (filter P xs)"
  by (induction xs) auto

lemma wf_remove:
  assumes wf: "wf_world w"
  shows "wf_world (w\<lparr>pending := filter Q (pending w)\<rparr>)"
proof -
  have "length (filter (\<lambda>(k, r, cb). is_flow cb) (filter Q (pending w)))
      \<le> length (filter (\<lambda>(k, r, cb). is_flow cb) (pending w))"
    by (rule filter_remove_le)
  then have "tokens (w\<lparr>pending := filter Q (pending w)\<rparr>) \<le> tokens w"
    by (simp add: tokens_def)
  then show ?thesis using wf by (auto simp: wf_world_def)
qed

lemma wf_sendRequest:
  assumes "wf_world w" and "cb_ok r cb" and "req_ok (next_playback w) r"
    and "is_flow cb \<Longrightarrow> tokens w = 0"
  shows "wf_world (sendRequest r cb w)"
  using assms by (cases "is_flow cb") (auto simp: wf_world_def sendRequest_def tokens_def less_Suc_eq)

lemma wf_control:
  assumes wf: "wf_world w" and valid: "operation \<in> set control_operations"
  shows "wf_world (control pb operation CbControl w)"
proof (cases "is_terminal w pb")
  case True
  have "wf_world (w\<lparr>failures := failures w @ [InvalidState]\<rparr>)"
    using wf by (auto simp: wf_world_def tokens_def)
  then show ?thesis using True valid by (simp add: control_def)
next
  case False
  have "wf_world (sendRequest (Control pb operation) CbControl (transition pb operation w))"
  proof (rule wf_sendRequest)
    show "wf_world (transition pb operation w)" using wf by (simp add: wf_transition)
    show "cb_ok (Control pb operation) CbControl" by simp
    show "req_ok (next_playback (transition pb operation w)) (Control pb operation)"
      using valid by simp
    show "is_flow CbControl \<Longrightarrow> tokens (transition pb operation w) = 0" by simp
  qed
  then show ?thesis using False valid by (simp add: control_def)
qed

lemma wf_hangup: "wf_world w \<Longrightarrow> wf_world (hangup c CbHangup w)"
  unfolding hangup_def by (rule wf_sendRequest) simp_all

lemma wf_console_error: "wf_world (console_error l w) = wf_world w"
  by (simp add: wf_world_def console_error_def tokens_def)

lemma wf_playback_control:
  "wf_world w \<Longrightarrow> operation \<in> set control_operations \<Longrightarrow>
     wf_world (playback_control pb operation CbControl w)"
  by (cases pb) (simp_all add: playback_control_def wf_throw wf_control)

lemma wf_dtmf:
  "wf_world w \<Longrightarrow> wf_world (channelDtmfReceivedCallback pb inc ev ch w)"
  by (cases pb)
    (simp_all add: channelDtmfReceivedCallback_def Let_def wf_playback_control wf_throw
      wf_console_error wf_hangup wf_control control_operations_def)

lemma wf_stasis:
  "wf_world w \<Longrightarrow> tokens w = 0 \<Longrightarrow> wf_world (stasisStartCallback ev c w)"
  unfolding stasisStartCallback_def answer_def by (rule wf_sendRequest) simp_all

lemma wf_connectCallback:
  assumes wf: "wf_world w" and tok: "tokens w = 0"
  shows "wf_world (connectCallback err ari w)"
proof (cases ari)
  case None
  then show ?thesis using wf by (simp add: connectCallback_def wf_throw)
next
  case (Some a)
  then show ?thesis using wf tok
    by (auto simp: connectCallback_def start_def once_def wf_world_def tokens_def)
qed

lemma wf_channelAnswerCallback:
  assumes wf: "wf_world w" and tok: "tokens w = 0"
  shows "wf_world (channelAnswerCallback c err w)"
  using wf tok
  by (auto simp: channelAnswerCallback_def Playback_def play_def set_state_def sendRequest_def
      wf_world_def tokens_def less_Suc_eq req_ok_mono)

lemma wf_playCallback:
  assumes wf: "wf_world w" and tok: "tokens w = 0"
  shows "wf_world (playCallback c err pb w)"
  using wf tok
  by (auto simp: playCallback_def registerDtmfListeners_def on_def wf_world_def tokens_def)

lemma wf_complete:
  assumes wf: "wf_world w"
    and look: "map_of (pending w) k = Some (req, cb)"
  shows "wf_world (complete cb req err (w\<lparr>pending := filter (\<lambda>(k', _). k' \<noteq> k) (pending w)\<rparr>))"
proof -
  let ?w = "w\<lparr>pending := filter (\<lambda>(k', _). k' \<noteq> k) (pending w)\<rparr>"
  have mem: "(k, req, cb) \<in> set (pending w)" using look by (rule map_of_SomeD)
  have wf': "wf_world ?w" using wf by (rule wf_remove)
  have tok: "tokens ?w = 0" if "is_flow cb"
  proof -
    have "length (filter (\<lambda>(k, r, cb). is_flow cb) (filter (\<lambda>(k', _). k' \<noteq> k) (pending w)))
        < length (filter (\<lambda>(k, r, cb). is_flow cb) (pending w))"
      using mem that by (intro filter_remove_less [of "(k, req, cb)"]) auto
    moreover have "tokens w \<le> 1" using wf by (simp add: wf_world_def)
    moreover have "tokens ?w =
        length (filter (\<lambda>(k, r, cb). is_flow cb) (filter (\<lambda>(k', _). k' \<noteq> k) (pending w)))
        + length (once_listeners w) + length (chan_listeners w)"
      by (simp add: tokens_def del: filter_filter)
    moreover have "tokens w = length (filter (\<lambda>(k, r, cb). is_flow cb) (pending w))
        + length (once_listeners w) + length (chan_listeners w)"
      by (simp add: tokens_def)
    ultimately show ?thesis by linarith
  qed
  show ?thesis
  proof (cases cb)
    case CbConnect
    then show ?thesis using wf' tok by (simp add: complete_def wf_connectCallback)
  next
    case CbStasisStart
    then show ?thesis using wf' by (simp add: complete_def)
  next
    case (CbAnswer c)
    then show ?thesis using wf' tok by (simp add: complete_def wf_channelAnswerCallback)
  next
    case (CbPlay c)
    then show ?thesis using wf' tok
      by (cases req) (simp_all add: complete_def wf_playCallback)
  next
    case (CbDtmf pb c)
    then show ?thesis using wf' by (simp add: complete_def)
  next
    case CbControl
    then show ?thesis using wf' by (simp add: complete_def controlCallback_def)
  next
    case CbHangup
    then show ?thesis using wf'
      by (auto simp add: complete_def hangupCallback_def process_exit_def wf_world_def tokens_def)
  qed
qed

lemma wf_emit_dtmfs:
  "wf_world w \<Longrightarrow> \<forall>cb \<in> set cbs. \<exists>pb c. cb = CbDtmf pb c \<Longrightarrow>
     wf_world (foldl (\<lambda>w' cb. emit cb ev w') w cbs)"
proof (induction cbs arbitrary: w)
  case Nil then show ?case by simp
next
  case (Cons cb cbs)
  then obtain pb c where cb: "cb = CbDtmf pb c" by auto
  have "wf_world (emit cb ev w)" using Cons.prems(1) cb by (simp add: emit_def wf_dtmf)
  then show ?case using Cons by simp
qed

lemma wf_finish: "wf_world w \<Longrightarrow> wf_world (finish ev w)"
  by (auto simp: finish_def set_state_def wf_world_def tokens_def split: option.splits)

lemma wf_listeners:
  assumes wf: "wf_world w"
  shows "wf_world (foldl (\<lambda>w' cb. emit cb ev w')
     (w\<lparr>once_listeners := filter (\<lambda>(t, cb). t \<noteq> ev_type ev) (once_listeners w)\<rparr>)
     (listeners_for ev w))"
proof (cases "once_listeners w")
  case Nil
  have "\<forall>cb \<in> set (listeners_for ev w). \<exists>pb c. cb = CbDtmf pb c"
    using wf Nil by (auto simp: listeners_for_def wf_world_def)
  moreover have "w\<lparr>once_listeners := filter (\<lambda>(t, cb). t \<noteq> ev_type ev) (once_listeners w)\<rparr> = w"
    using Nil by simp
  ultimately show ?thesis using wf by (simp add: wf_emit_dtmfs)
next
  case (Cons l ls)
  have tok: "tokens w \<le> 1" using wf by (simp add: wf_world_def)
  then have ls: "ls = []" and ch: "chan_listeners w = []"
    and fl: "filter (\<lambda>(k, r, cb). is_flow cb) (pending w) = []"
    using Cons by (auto simp: tokens_def)
  have l: "l = (''StasisStart'', CbStasisStart)" using wf Cons by (auto simp: wf_world_def)
  show ?thesis
  proof (cases "ev_type ev = ''StasisStart''")
    case True
    let ?w = "w\<lparr>once_listeners := []\<rparr>"
    have wf0: "wf_world ?w" using wf by (auto simp: wf_world_def tokens_def)
    moreover have "tokens ?w = 0" using fl ch by (simp add: tokens_def)
    ultimately have "wf_world (stasisStartCallback ev (ev_channel ev) ?w)" by (rule wf_stasis)
    then have "wf_world (emit CbStasisStart ev ?w)" using wf0 by (simp add: emit_def)
    then show ?thesis using True Cons ls l ch by (simp add: listeners_for_def)
  next
    case False
    have "w\<lparr>once_listeners := filter (\<lambda>(t, cb). t \<noteq> ev_type ev) (once_listeners w)\<rparr> = w"
      using False Cons ls l by simp
    moreover have "listeners_for ev w = []"
      using False Cons ls l ch by (simp add: listeners_for_def)
    ultimately show ?thesis using wf by simp
  qed
qed

lemma wf_dispatch: "wf_world w \<Longrightarrow> wf_world (dispatch ev w)"
  unfolding dispatch_def by (intro wf_finish wf_listeners)

lemma wf_step: "wf_world w \<Longrightarrow> wf_world (step i w)"
  by (cases i) (auto simp: step_def wf_dispatch wf_complete split: option.splits)

lemma wf_run_from: "wf_world w \<Longrightarrow> wf_world (run ins w)"
  unfolding run_def by (induction ins arbitrary: w) (simp_all add: wf_step)

lemma wf_run: "wf_world (run ins boot)"
  by (rule wf_run_from [OF wf_boot])

lemma wf_sent: "wf_world w \<Longrightarrow> r \<in> set (sent w) \<Longrightarrow> req_ok (next_playback w) r"
  by (simp add: wf_world_def)

lemma wf_pending:
  "wf_world w \<Longrightarrow> (k, r, cb) \<in> set (pending w) \<Longrightarrow>
     k < next_id w \<and> cb_ok r cb \<and> r \<in> set (sent w)"
  by (auto simp: wf_world_def)

lemma wf_failures: "wf_world w \<Longrightarrow> InvalidArgument \<notin> set (failures w)"
  by (simp add: wf_world_def)


lemma wf_tokens: "wf_world w \<Longrightarrow> tokens w \<le> 1"
  by (simp add: wf_world_def)
subsection \<open>Exit and delivery\<close>

lemma util_format_unknown: "util_format ''Unknown DTMF %s'' d = ''Unknown DTMF '' @ d"
  by simp

lemma control_exit:
  "exit_status (control pb operation cb w) = exit_status w
   \<and> uncaught (control pb operation cb w) = uncaught w"
  by (simp add: op_defs split: option.split)

lemma dtmf_handle_exit:
  "exit_status (channelDtmfReceivedCallback (Some pb) inc ev ch w) = exit_status w
   \<and> uncaught (channelDtmfReceivedCallback (Some pb) inc ev ch w) = uncaught w"
  by (simp add: channelDtmfReceivedCallback_def playback_control_def Let_def control_exit
      hangup_def sendRequest_def console_error_def)

lemma dtmf_no_handle:
  "channelDtmfReceivedCallback None inc ev ch w =
     (if ev_digit ev \<in> set control_digits then throw TypeError w
      else console_error (util_format ''Unknown DTMF %s'' (ev_digit ev)) w)"
  by (simp add: channelDtmfReceivedCallback_def playback_control_def Let_def control_digits_def)

lemma emit_exited: "exit_status w \<noteq> None \<Longrightarrow> emit cb ev w = w"
  by (simp add: emit_def)

lemma emits_exited: "exit_status w \<noteq> None \<Longrightarrow> foldl (\<lambda>w' cb. emit cb ev w') w cbs = w"
  by (induction cbs) (simp_all add: emit_exited)

lemma emit_exit_cases:
  assumes "exit_status w = None" and "exit_status (emit cb ev w) \<noteq> None"
  shows "(\<exists>inc. cb = CbDtmf None inc) \<and> ev_digit ev \<in> set control_digits
     \<and> exit_status (emit cb ev w) = Some 1 \<and> uncaught (emit cb ev w) = Some TypeError"
proof (cases cb)
  case (CbDtmf pb inc)
  show ?thesis
  proof (cases pb)
    case None
    then show ?thesis using assms CbDtmf
      by (auto simp: emit_def dtmf_no_handle throw_def console_error_def split: if_splits)
  next
    case (Some p)
    then show ?thesis using assms CbDtmf by (simp add: emit_def dtmf_handle_exit)
  qed
qed (use assms in \<open>simp_all add: emit_def stasisStartCallback_def answer_def sendRequest_def\<close>)

lemma emits_exit_cases:
  assumes "exit_status w = None"
    and "exit_status (foldl (\<lambda>w' cb. emit cb ev w') w cbs) \<noteq> None"
  shows "(\<exists>inc. CbDtmf None inc \<in> set cbs) \<and> ev_digit ev \<in> set control_digits
     \<and> exit_status (foldl (\<lambda>w' cb. emit cb ev w') w cbs) = Some 1
     \<and> uncaught (foldl (\<lambda>w' cb. emit cb ev w') w cbs) = Some TypeError"
  using assms
proof (induction cbs arbitrary: w)
  case Nil then show ?case by simp
next
  case (Cons cb cbs)
  show ?case
  proof (cases "exit_status (emit cb ev w) = None")
    case True
    then show ?thesis using Cons.IH [of "emit cb ev w"] Cons.prems(2) by auto
  next
    case False
    then have "foldl (\<lambda>w' cb. emit cb ev w') (emit cb ev w) cbs = emit cb ev w"
      by (rule emits_exited)
    then show ?thesis using emit_exit_cases [OF Cons.prems(1) False] by auto
  qed
qed

lemma finish_exit:
  "exit_status (finish ev w) = exit_status w \<and> uncaught (finish ev w) = uncaught w"
  by (simp add: finish_def set_state_def split: option.split)

lemma complete_exit:
  "exit_status (complete cb req err w) =
     (if cb = CbHangup then Some 0
      else if cb = CbConnect \<and> err \<noteq> None then Some 1
      else exit_status w)"
  by (cases cb; cases req; cases err)
    (simp_all add: complete_def result_def cb_defs sendRequest_def start_def once_def on_def
      answer_def hangup_def Playback_def play_def set_state_def process_exit_def throw_def)

lemma complete_uncaught:
  "uncaught (complete cb req err w) =
     (if cb = CbConnect \<and> err \<noteq> None then Some TypeError else uncaught w)"
  by (cases cb; cases req; cases err)
    (simp_all add: complete_def result_def cb_defs sendRequest_def start_def once_def on_def
      answer_def hangup_def Playback_def play_def set_state_def process_exit_def throw_def)

text \<open>The three ways in which a step ends the process.\<close>

lemma step_exit_cases:
  assumes wf: "wf_world w" and running: "exit_status w = None"
    and exited: "exit_status (step i w) \<noteq> None"
  shows "(\<exists>k err c. i = Completed k err \<and> map_of (pending w) k = Some (Hangup c, CbHangup)
            \<and> exit_status (step i w) = Some 0 \<and> uncaught (step i w) = uncaught w)
     \<or> (\<exists>k e u n s. i = Completed k (Some e)
            \<and> map_of (pending w) k = Some (Connect u n s, CbConnect)
            \<and> exit_status (step i w) = Some 1 \<and> uncaught (step i w) = Some TypeError)
     \<or> (\<exists>ev. i = Event ev
            \<and> (ev_channel ev, ''ChannelDtmfReceived'', CbDtmf None (ev_channel ev))
                 \<in> set (chan_listeners w)
            \<and> ev_type ev = ''ChannelDtmfReceived''
            \<and> ev_digit ev \<in> set control_digits
            \<and> exit_status (step i w) = Some 1 \<and> uncaught (step i w) = Some TypeError)"
proof (cases i)
  case (Completed k err)
  show ?thesis
  proof (cases "map_of (pending w) k")
    case None
    then show ?thesis using running exited Completed by (simp add: step_def)
  next
    case (Some rc)
    obtain req cb where rc: "rc = (req, cb)" by (cases rc)
    let ?w = "w\<lparr>pending := filter (\<lambda>(k', _). k' \<noteq> k) (pending w)\<rparr>"
    have st: "step i w = complete cb req err ?w"
      using running Completed Some rc by (simp add: step_def)
    have "(k, req, cb) \<in> set (pending w)" using Some rc map_of_SomeD by fastforce
    then have ok: "cb_ok req cb" using wf by (auto simp: wf_world_def)
    have cases: "cb = CbHangup \<or> cb = CbConnect \<and> err \<noteq> None"
      using exited running unfolding st complete_exit by (auto split: if_splits)
    then show ?thesis
    proof
      assume h: "cb = CbHangup"
      then obtain c where "req = Hangup c" using ok by (cases req) simp_all
      then show ?thesis using h st Completed Some rc
        by (simp add: complete_exit complete_uncaught)
    next
      assume c: "cb = CbConnect \<and> err \<noteq> None"
      then obtain u n s where "req = Connect u n s" using ok by (cases req) simp_all
      moreover obtain e where "err = Some e" using c by auto
      ultimately show ?thesis using c st Completed Some rc
        by (simp add: complete_exit complete_uncaught)
    qed
  qed
next
  case (Event ev)
  let ?w = "w\<lparr>once_listeners := filter (\<lambda>(t, cb). t \<noteq> ev_type ev) (once_listeners w)\<rparr>"
  let ?f = "foldl (\<lambda>w' cb. emit cb ev w') ?w (listeners_for ev w)"
  have st: "step i w = finish ev ?f" using running Event by (simp add: step_def dispatch_def)
  have ex: "exit_status ?f \<noteq> None" using exited unfolding st by (simp add: finish_exit)
  have r0: "exit_status ?w = None" using running by simp
  obtain inc where mem: "CbDtmf None inc \<in> set (listeners_for ev w)"
    and dg: "ev_digit ev \<in> set control_digits"
    and e1: "exit_status ?f = Some 1" and u1: "uncaught ?f = Some TypeError"
    using emits_exit_cases [OF r0 ex] by blast
  have "(ev_channel ev, ev_type ev, CbDtmf None inc) \<in> set (chan_listeners w)"
    using mem wf by (auto simp: listeners_for_def wf_world_def)
  moreover from this have "ev_type ev = ''ChannelDtmfReceived'' \<and> inc = ev_channel ev"
    using wf by (auto simp: wf_world_def)
  ultimately show ?thesis using Event dg e1 u1 unfolding st by (simp add: finish_exit)
qed

lemma deliver_dtmf:
  assumes wf: "wf_world w" and running: "exit_status w = None"
    and reg: "(c, t, CbDtmf pb inc) \<in> set (chan_listeners w)"
    and ty: "ev_type ev = ''ChannelDtmfReceived''" and ch: "ev_channel ev = c"
  shows "inc = c \<and> chan_listeners w = [(c, ''ChannelDtmfReceived'', CbDtmf pb c)]
     \<and> step (Event ev) w = channelDtmfReceivedCallback pb c ev c w"
proof -
  have tok: "tokens w \<le> 1" using wf by (simp add: wf_world_def)
  obtain l ls where ls: "chan_listeners w = l # ls" using reg by (cases "chan_listeners w") auto
  have "ls = []" and on: "once_listeners w = []" using tok ls by (auto simp: tokens_def)
  then have l: "chan_listeners w = [(c, t, CbDtmf pb inc)]" using ls reg by auto
  have "t = ''ChannelDtmfReceived'' \<and> inc = c" using wf reg by (auto simp: wf_world_def)
  then have tc: "t = ''ChannelDtmfReceived''" and ic: "inc = c" by simp_all
  have same: "w\<lparr>once_listeners := []\<rparr> = w" using on by simp
  have nf: "finish ev w' = w'" for w' using ty by (simp add: finish_def)
  have "step (Event ev) w = emit (CbDtmf pb c) ev (w\<lparr>once_listeners := []\<rparr>)"
    using l on ty ch running tc ic by (simp add: step_def dispatch_def listeners_for_def nf)
  also have "\<dots> = emit (CbDtmf pb c) ev w" by (simp only: same)
  also have "\<dots> = channelDtmfReceivedCallback pb c ev c w"
    using running ch by (simp add: emit_def)
  finally show ?thesis using ic l tc by simp
qed
lemma cb_ok_hangup: "cb_ok req CbHangup \<Longrightarrow> \<exists>c. req = Hangup c"
  by (cases req) simp_all

text \<open>
  Where the one listener holds a Playback handle, the flow has reached the listener:
  no connect is outstanding and no listener lacks a handle, so only the completion of a
  hangup request ends the process.
\<close>

lemma exit_by_hangup:
  assumes wf: "wf_world w" and running: "exit_status w = None"
    and reg: "(c, t, CbDtmf (Some pb) inc) \<in> set (chan_listeners w)"
    and exited: "exit_status (step i w) \<noteq> None"
  shows "\<exists>k err ch. i = Completed k err \<and> map_of (pending w) k = Some (Hangup ch, CbHangup)
       \<and> exit_status (step i w) = Some 0"
proof -
  have tok: "tokens w \<le> 1" using wf by (simp add: wf_world_def)
  obtain l ls where ls: "chan_listeners w = l # ls" using reg by (cases "chan_listeners w") auto
  have "ls = []" and fl: "filter (\<lambda>(k, r, cb). is_flow cb) (pending w) = []"
    using tok ls by (auto simp: tokens_def)
  then have l: "chan_listeners w = [(c, t, CbDtmf (Some pb) inc)]" using ls reg by auto
  have no_connect: "map_of (pending w) k \<noteq> Some (req, CbConnect)" for k req
  proof
    assume "map_of (pending w) k = Some (req, CbConnect)"
    then have "(k, req, CbConnect) \<in> set (pending w)" by (rule map_of_SomeD)
    then have "(k, req, CbConnect) \<in> set (filter (\<lambda>(k, r, cb). is_flow cb) (pending w))"
      by simp
    then show False using fl by simp
  qed
  show ?thesis using step_exit_cases [OF wf running exited] no_connect l by auto
qed


subsection \<open>After the first StasisStart event\<close>

lemma run_append: "run (xs @ ys) w = run ys (run xs w)"
  by (simp add: run_def)

lemma run_Cons: "run (x # xs) w = run xs (step x w)"
  by (simp add: run_def)

lemma connected_eq:
  "connected =
     \<lparr>sent = [Connect ''http://ari.js:8088'' ''user'' ''secret'', Start ''playback-example''],
      pending = [], next_id = 1, once_listeners = [(''StasisStart'', CbStasisStart)],
      chan_listeners = [], registry = [], playback_states = [], next_playback = 0,
      apps = [''playback-example''], failures = [], stderr = [], uncaught = None,
      exit_status = None\<rparr>"
  by (simp add: connected_def run_defs)

lemma wf_connected: "wf_world connected"
  unfolding connected_def by (rule wf_run)

lemma connected_idle_step: "\<not> is_StasisStart i \<Longrightarrow> step i connected = connected"
  by (cases i)
    (simp_all add: connected_eq step_def dispatch_def listeners_for_def finish_def
      split: option.split)

lemma connected_idle: "\<forall>i \<in> set pre. \<not> is_StasisStart i \<Longrightarrow> run pre connected = connected"
  by (induction pre) (simp_all add: run_Cons connected_idle_step run_def)

lemma quiet_dtmf:
  "quiet w \<Longrightarrow> quiet (channelDtmfReceivedCallback pb inc ev ch w)
     \<and> answers (channelDtmfReceivedCallback pb inc ev ch w) = answers w"
  by (cases pb)
    (auto simp: quiet_def answers_def cb_defs op_defs Let_def split: option.splits)

lemma quiet_finish: "quiet (finish ev w) = quiet w \<and> answers (finish ev w) = answers w"
  by (simp add: finish_def set_state_def quiet_def answers_def split: option.split)

lemma quiet_emits:
  "quiet w \<Longrightarrow> \<forall>cb \<in> set cbs. \<exists>pb c. cb = CbDtmf pb c \<Longrightarrow>
     quiet (foldl (\<lambda>w' cb. emit cb ev w') w cbs)
     \<and> answers (foldl (\<lambda>w' cb. emit cb ev w') w cbs) = answers w"
proof (induction cbs arbitrary: w)
  case Nil then show ?case by simp
next
  case (Cons cb cbs)
  then obtain pb c where cb: "cb = CbDtmf pb c" by auto
  have "quiet (emit cb ev w) \<and> answers (emit cb ev w) = answers w"
    using Cons.prems(1) cb quiet_dtmf by (simp add: emit_def)
  then show ?case using Cons by simp
qed

lemma quiet_complete:
  assumes "quiet w" and "cb \<noteq> CbConnect"
  shows "quiet (complete cb req err w) \<and> answers (complete cb req err w) = answers w"
  using assms
  by (cases cb; cases req)
    (auto simp: quiet_def answers_def complete_def result_def cb_defs op_defs
      split: option.splits)

lemma quiet_step:
  assumes wf: "wf_world w" and q: "quiet w"
  shows "quiet (step i w) \<and> answers (step i w) = answers w"
proof (cases i)
  case (Completed k err)
  show ?thesis
  proof (cases "map_of (pending w) k")
    case None
    then show ?thesis using q Completed by (simp add: step_def)
  next
    case (Some rc)
    obtain req cb where rc: "rc = (req, cb)" by (cases rc)
    have "(k, req, cb) \<in> set (pending w)" using Some rc map_of_SomeD by fastforce
    then have ne: "cb \<noteq> CbConnect" using q by (auto simp: quiet_def)
    let ?w = "w\<lparr>pending := filter (\<lambda>(k', _). k' \<noteq> k) (pending w)\<rparr>"
    have "quiet ?w" using q by (auto simp: quiet_def)
    then have "quiet (complete cb req err ?w) \<and> answers (complete cb req err ?w) = answers ?w"
      using ne by (rule quiet_complete)
    moreover have "answers ?w = answers w" by (simp add: answers_def)
    ultimately show ?thesis using q Completed Some rc by (simp add: step_def)
  qed
next
  case (Event ev)
  have on: "once_listeners w = []" using q by (simp add: quiet_def)
  have "\<forall>cb \<in> set (listeners_for ev w). \<exists>pb c. cb = CbDtmf pb c"
    using wf on by (auto simp: listeners_for_def wf_world_def)
  moreover have "w\<lparr>once_listeners := filter (\<lambda>(t, cb). t \<noteq> ev_type ev) (once_listeners w)\<rparr> = w"
    using on by simp
  ultimately have "quiet (dispatch ev w) \<and> answers (dispatch ev w) = answers w"
    using q by (simp add: dispatch_def quiet_emits quiet_finish)
  then show ?thesis using q Event by (simp add: step_def)
qed

lemma quiet_run:
  "wf_world w \<Longrightarrow> quiet w \<Longrightarrow> quiet (run ins w) \<and> answers (run ins w) = answers w"
proof (induction ins arbitrary: w)
  case Nil then show ?case by (simp add: run_def)
next
  case (Cons i ins)
  have "wf_world (step i w)" using Cons.prems(1) by (rule wf_step)
  moreover have "quiet (step i w) \<and> answers (step i w) = answers w"
    using Cons.prems by (rule quiet_step)
  ultimately show ?case using Cons.IH [of "step i w"] by (simp add: run_Cons)
qed

lemma quiet_no_stasis_listener:
  assumes "wf_world w" and "quiet w" and "ev_type ev = ''StasisStart''"
  shows "listeners_for ev w = [] \<and> step (Event ev) w = w"
proof -
  have on: "once_listeners w = []" using assms(2) by (simp add: quiet_def)
  have "filter (\<lambda>(c, t, cb). c = ev_channel ev \<and> t = ev_type ev) (chan_listeners w) = []"
    using assms(1,3) by (auto simp: wf_world_def filter_empty_conv)
  then have l: "listeners_for ev w = []" using on by (simp add: listeners_for_def)
  have "w\<lparr>once_listeners := []\<rparr> = w" using on by simp
  moreover have "finish ev w' = w'" for w' using assms(3) by (simp add: finish_def)
  ultimately show ?thesis using l on by (simp add: step_def dispatch_def)
qed

subsection \<open>The step that issues play\<close>

lemma adds_no_play_refl: "adds_no_play w w"
  by (simp add: adds_no_play_def)

lemma adds_no_play_trans: "adds_no_play w w' \<Longrightarrow> adds_no_play w' w'' \<Longrightarrow> adds_no_play w w''"
  by (auto simp: adds_no_play_def)

lemma adds_no_play_issued:
  assumes "adds_no_play w (step i w)"
  shows "\<forall>r \<in> set (issued i w). \<not> is_Play r"
proof -
  obtain new where "sent (step i w) = sent w @ new" and "\<forall>r \<in> set new. \<not> is_Play r"
    using assms by (auto simp: adds_no_play_def)
  then show ?thesis by (simp add: issued_def)
qed

lemma control_no_play: "adds_no_play w (control pb operation cb w)"
  by (simp add: adds_no_play_def op_defs split: option.split)

lemma dtmf_no_play: "adds_no_play w (channelDtmfReceivedCallback pb inc ev ch w)"
proof (cases pb)
  case None
  then show ?thesis
    by (simp add: dtmf_no_handle adds_no_play_def throw_def console_error_def)
next
  case (Some p)
  have h: "adds_no_play w (hangup inc CbHangup (control p ''stop'' CbControl w))"
    using control_no_play [of w p "''stop''" CbControl]
    by (auto simp: adds_no_play_def hangup_def sendRequest_def)
  have l: "adds_no_play w (console_error l w)" for l
    by (simp add: adds_no_play_def console_error_def)
  show ?thesis using Some h l
    by (simp add: channelDtmfReceivedCallback_def playback_control_def Let_def control_no_play)
qed

lemma emit_no_play: "adds_no_play w (emit cb ev w)"
  by (cases cb)
    (simp_all add: emit_def dtmf_no_play adds_no_play_refl,
     simp add: adds_no_play_def stasisStartCallback_def answer_def sendRequest_def)

lemma emits_no_play: "adds_no_play w (foldl (\<lambda>w' cb. emit cb ev w') w cbs)"
proof (induction cbs arbitrary: w)
  case Nil show ?case by (simp add: adds_no_play_refl)
next
  case (Cons cb cbs)
  have "adds_no_play w (emit cb ev w)" by (rule emit_no_play)
  moreover have "adds_no_play (emit cb ev w) (foldl (\<lambda>w' cb. emit cb ev w') (emit cb ev w) cbs)"
    by (rule Cons.IH)
  ultimately show ?case by (simp add: adds_no_play_trans)
qed

lemma dispatch_no_play: "adds_no_play w (dispatch ev w)"
proof -
  let ?w = "w\<lparr>once_listeners := filter (\<lambda>(t, cb). t \<noteq> ev_type ev) (once_listeners w)\<rparr>"
  let ?f = "foldl (\<lambda>w' cb. emit cb ev w') ?w (listeners_for ev w)"
  have "adds_no_play ?w ?f" by (rule emits_no_play)
  moreover have "sent (finish ev ?f) = sent ?f"
    by (simp add: finish_def set_state_def split: option.split)
  ultimately show ?thesis by (simp add: dispatch_def adds_no_play_def)
qed

lemma complete_no_play:
  assumes "\<forall>c. cb \<noteq> CbAnswer c"
  shows "adds_no_play w (complete cb req err w)"
  using assms
  by (cases cb; cases req; cases err)
    (simp_all add: adds_no_play_def complete_def result_def cb_defs op_defs)

lemma play_issued:
  assumes play: "Play c m p \<in> set (issued i w)"
  shows "\<exists>k err req c'. i = Completed k err \<and> exit_status w = None
     \<and> map_of (pending w) k = Some (req, CbAnswer c')
     \<and> step i w =
         channelAnswerCallback c' err (w\<lparr>pending := filter (\<lambda>(k', _). k' \<noteq> k) (pending w)\<rparr>)"
proof -
  have np: "\<not> adds_no_play w (step i w)"
    using play adds_no_play_issued [of w i] by force
  then have running: "exit_status w = None"
    by (cases "exit_status w") (simp_all add: step_def adds_no_play_refl)
  show ?thesis
  proof (cases i)
    case (Event ev)
    then show ?thesis using np running by (simp add: step_def dispatch_no_play)
  next
    case (Completed k err)
    show ?thesis
    proof (cases "map_of (pending w) k")
      case None
      then show ?thesis using np running Completed by (simp add: step_def adds_no_play_refl)
    next
      case (Some rc)
      obtain req cb where rc: "rc = (req, cb)" by (cases rc)
      let ?w = "w\<lparr>pending := filter (\<lambda>(k', _). k' \<noteq> k) (pending w)\<rparr>"
      have st: "step i w = complete cb req err ?w"
        using running Completed Some rc by (simp add: step_def)
      have "\<exists>c'. cb = CbAnswer c'"
      proof (rule ccontr)
        assume "\<not> (\<exists>c'. cb = CbAnswer c')"
        then have "adds_no_play ?w (complete cb req err ?w)" by (intro complete_no_play) simp
        then have "adds_no_play w (step i w)" by (simp add: st adds_no_play_def)
        then show False using np by simp
      qed
      then obtain c' where cb: "cb = CbAnswer c'" ..
      then have "step i w = channelAnswerCallback c' err ?w" using st by (simp add: complete_def)
      then show ?thesis using Completed running Some rc cb by blast
    qed
  qed
qed

lemma answer_issues_play:
  "sent (channelAnswerCallback c err w) = sent w @ [Play c ''sound:demo-congrats'' (next_playback w)]
   \<and> pending (channelAnswerCallback c err w) =
       pending w @ [(next_id w, Play c ''sound:demo-congrats'' (next_playback w), CbPlay c)]
   \<and> registry (channelAnswerCallback c err w) = registry w @ [next_playback w]
   \<and> next_playback (channelAnswerCallback c err w) = Suc (next_playback w)"
  by (simp add: channelAnswerCallback_def Playback_def play_def set_state_def sendRequest_def)

lemma two_flow_entries:
  assumes "x \<in> set xs" and "y \<in> set xs" and "x \<noteq> y" and "P x" and "P y"
  shows "2 \<le> length (filter P xs)"
proof -
  have "{x, y} \<subseteq> set (filter P xs)" using assms by simp
  then have "card {x, y} \<le> card (set (filter P xs))" by (intro card_mono) simp_all
  also have "\<dots> \<le> length (filter P xs)" by (rule card_length)
  finally show ?thesis using assms(3) by simp
qed

lemma one_flow:
  assumes wf: "wf_world w"
    and x: "(k, r, cb) \<in> set (pending w)" "is_flow cb"
    and y: "(k', r', cb') \<in> set (pending w)" "is_flow cb'"
  shows "(k, r, cb) = (k', r', cb')"
proof (rule ccontr)
  assume ne: "(k, r, cb) \<noteq> (k', r', cb')"
  have "2 \<le> length (filter (\<lambda>(k, r, cb). is_flow cb) (pending w))"
    using x(1) y(1) ne x(2) y(2) by (intro two_flow_entries [of "(k, r, cb)" _ "(k', r', cb')"]) simp_all
  then have "2 \<le> tokens w" by (simp add: tokens_def)
  then show False using wf_tokens [OF wf] by simp
qed

lemma cb_ok_answer: "cb_ok req (CbAnswer c) \<Longrightarrow> req = Answer c"
  by (cases req) simp_all


text \<open>A failed connect: the callback throws, and neither listener nor application is registered.\<close>

lemma failed_connect_throws:
  "exit_status (run [Completed 0 (Some ConnectionError)] boot) = Some 1
   \<and> uncaught (run [Completed 0 (Some ConnectionError)] boot) = Some TypeError
   \<and> once_listeners (run [Completed 0 (Some ConnectionError)] boot) = []
   \<and> apps (run [Completed 0 (Some ConnectionError)] boot) = []"
  by (simp add: run_defs)
section \<open>The claims\<close>

text \<open>
  Claim C1, as stated, fails. When the playback has finished, it is in a terminal state
  and for the digit 5 the control operation fails with \<open>InvalidState\<close>: no request is
  issued. And when play has completed with an error the listener holds no Playback
  handle, and for the digit 5 the call of \<open>playback.control\<close> at line 102 throws: no
  request is issued either.
\<close>

theorem digit_issues_nothing_counterexample:
  "issued (Event (ChannelDtmfReceived ''c1'' ''5''))
       (run [Completed 0 None, Event (StasisStart ''c1''), Completed 1 None,
          Completed 2 None, Event (PlaybackFinished ''c1'' 0)] boot) = []
   \<and> failures (run [Completed 0 None, Event (StasisStart ''c1''), Completed 1 None,
       Completed 2 None, Event (PlaybackFinished ''c1'' 0),
       Event (ChannelDtmfReceived ''c1'' ''5'')] boot) = [InvalidState]
   \<and> chan_listeners (run [Completed 0 None, Event (StasisStart ''c1''), Completed 1 None,
       Completed 2 (Some Timeout)] boot)
     = [(''c1'', ''ChannelDtmfReceived'', CbDtmf None ''c1'')]
   \<and> exit_status (run [Completed 0 None, Event (StasisStart ''c1''), Completed 1 None,
       Completed 2 (Some Timeout)] boot) = None
   \<and> issued (Event (ChannelDtmfReceived ''c1'' ''5''))
       (run [Completed 0 None, Event (StasisStart ''c1''), Completed 1 None,
          Completed 2 (Some Timeout)] boot) = []
   \<and> uncaught (run [Completed 0 None, Event (StasisStart ''c1''), Completed 1 None,
       Completed 2 (Some Timeout), Event (ChannelDtmfReceived ''c1'' ''5'')] boot)
     = Some TypeError"
  by (simp add: run_defs)

text \<open>
  Claim C1, amended. When a DTMF listener that holds a Playback handle receives an event
  whose digit is 5, 8, 4, 6 or 2, and the playback is not in a terminal state, it issues
  exactly one control request on the playback, with operation pause, unpause, reverse,
  forward or restart respectively, completed by the callback that does nothing; it issues
  no other operation, and besides the request only the last known state of the playback
  changes.
\<close>

theorem dtmf_digit_issues_one_control:
  assumes "(ev_digit event, operation) \<in> set [(''5'', ''pause''), (''8'', ''unpause''),
     (''4'', ''reverse''), (''6'', ''forward''), (''2'', ''restart'')]"
    and "\<not> is_terminal w playback"
  shows "channelDtmfReceivedCallback (Some playback) incoming event channel w =
     w\<lparr>sent := sent w @ [Control playback operation],
       pending := pending w @ [(next_id w, Control playback operation, CbControl)],
       next_id := Suc (next_id w),
       playback_states := playback_states (transition playback operation w)\<rparr>"
  using assms
  by (auto simp: channelDtmfReceivedCallback_def playback_control_def control_def
      control_operations_def sendRequest_def transition_def set_state_def
      split: option.split)

theorem dtmf_digit_issues_one_control_witness:
  "(ev_digit (ChannelDtmfReceived ''c1'' ''4''), ''reverse'') \<in> set [(''5'', ''pause''),
       (''8'', ''unpause''), (''4'', ''reverse''), (''6'', ''forward''), (''2'', ''restart'')]
   \<and> is_terminal playing 0 = False
   \<and> playback_states (transition 0 ''reverse'' playing) = (0, Playing) # playback_states playing
   \<and> sent (channelDtmfReceivedCallback (Some 0) ''c1'' (ChannelDtmfReceived ''c1'' ''4'') ''c1''
        playing)
       = sent playing @ [Control 0 ''reverse'']"
proof -
  have nt: "is_terminal playing 0 = False" by (simp add: playing_eq state_defs)
  have tr: "playback_states (transition 0 ''reverse'' playing)
      = (0, Playing) # playback_states playing"
    by (simp add: playing_eq state_defs)
  show ?thesis
    using dtmf_digit_issues_one_control
      [of "ChannelDtmfReceived ''c1'' ''4''" "''reverse''" playing 0 "''c1''" "''c1''"] nt tr
    by (simp add: ChannelDtmfReceived_def)
qed

text \<open>
  Claim C9. When the DTMF listener receives an event whose digit is none of 5, 8, 4, 6, 2
  and #, it issues no operation and leaves the world as it was, except for one line
  \<open>Unknown DTMF\<close> followed by the digit on the error log; it returns normally. This
  holds with and without a Playback handle.
\<close>

theorem unknown_digit_only_logs:
  assumes "ev_digit event \<notin> set [''5'', ''8'', ''4'', ''6'', ''2'', ''#'']"
  shows "channelDtmfReceivedCallback playback incoming event channel w =
     w\<lparr>stderr := stderr w @ [''Unknown DTMF '' @ ev_digit event]\<rparr>"
  using assms by (simp add: channelDtmfReceivedCallback_def console_error_def)

theorem unknown_digit_only_logs_witness:
  "ev_digit (ChannelDtmfReceived ''c1'' ''9'') \<notin> set [''5'', ''8'', ''4'', ''6'', ''2'', ''#'']
   \<and> channelDtmfReceivedCallback (Some 0) ''c1'' (ChannelDtmfReceived ''c1'' ''9'') ''c1'' playing
       = playing\<lparr>stderr := [''Unknown DTMF 9'']\<rparr>"
  using unknown_digit_only_logs
    [of "ChannelDtmfReceived ''c1'' ''9''" "Some 0" "''c1''" "''c1''" playing]
  by (simp add: ChannelDtmfReceived_def playing_eq)

text \<open>
  Claim C2. Whatever completions and events arrive, every control operation the program
  has issued is one of pause, unpause, reverse, forward, restart and stop, and no operation
  has failed with \<open>InvalidArgument\<close>.
\<close>

theorem issued_controls_are_valid:
  "(\<forall>r \<in> set (sent (run ins boot)). \<forall>pb operation. r = Control pb operation \<longrightarrow>
       operation \<in> set control_operations)
   \<and> InvalidArgument \<notin> set (failures (run ins boot))"
proof (intro conjI ballI allI impI)
  fix r pb operation
  assume "r \<in> set (sent (run ins boot))" and "r = Control pb operation"
  then have "Control pb operation \<in> set (sent (run ins boot))" by simp
  then have "req_ok (next_playback (run ins boot)) (Control pb operation)"
    by (rule wf_sent [OF wf_run])
  then show "operation \<in> set control_operations" by simp
next
  show "InvalidArgument \<notin> set (failures (run ins boot))"
    by (rule wf_failures [OF wf_run])
qed

theorem issued_controls_are_valid_witness:
  "Control 0 ''stop'' \<in> set (sent (run [Completed 0 None, Event (StasisStart ''c1''),
       Completed 1 None, Completed 2 None, Event (ChannelDtmfReceived ''c1'' ''#'')] boot))
   \<and> ''stop'' \<in> set control_operations
   \<and> InvalidArgument \<notin> set (failures (run [Completed 0 None, Event (StasisStart ''c1''),
       Completed 1 None, Completed 2 None, Event (ChannelDtmfReceived ''c1'' ''#'')] boot))"
proof -
  let ?ins = "[Completed 0 None, Event (StasisStart ''c1''),
       Completed 1 None, Completed 2 None, Event (ChannelDtmfReceived ''c1'' ''#'')]"
  have mem: "Control 0 ''stop'' \<in> set (sent (run ?ins boot))"
    by (simp add: run_defs)
  show ?thesis using issued_controls_are_valid [of ?ins] mem by blast
qed

text \<open>
  Claim C10. Every outstanding control request carries the callback that does nothing.
  When such a request completes with an error, the world that results is the one that
  results when it completes without error: the request leaves the table of outstanding
  requests and nothing else changes, so nothing is logged or rethrown and the process
  neither exits nor behaves differently afterwards.
\<close>

theorem control_errors_are_swallowed:
  assumes "map_of (pending (run ins boot)) k = Some (Control pb operation, cb)"
  shows "cb = CbControl \<and>
     step (Completed k (Some e)) (run ins boot) = step (Completed k None) (run ins boot) \<and>
     step (Completed k (Some e)) (run ins boot) =
       (if exit_status (run ins boot) \<noteq> None then run ins boot
        else (run ins boot)\<lparr>pending := filter (\<lambda>(k', _). k' \<noteq> k) (pending (run ins boot))\<rparr>)"
proof -
  have "(k, Control pb operation, cb) \<in> set (pending (run ins boot))"
    using assms by (rule map_of_SomeD)
  then have "cb_ok (Control pb operation) cb" using wf_pending [OF wf_run] by blast
  then have cb: "cb = CbControl" by simp
  then show ?thesis using assms by (simp add: step_def complete_def controlCallback_def)
qed

theorem control_errors_are_swallowed_witness:
  "map_of (pending (run [Completed 0 None, Event (StasisStart ''c1''), Completed 1 None,
       Completed 2 None, Event (ChannelDtmfReceived ''c1'' ''5'')] boot)) 3
     = Some (Control 0 ''pause'', CbControl)
   \<and> step (Completed 3 (Some Timeout)) (run [Completed 0 None, Event (StasisStart ''c1''),
       Completed 1 None, Completed 2 None, Event (ChannelDtmfReceived ''c1'' ''5'')] boot)
     = step (Completed 3 None) (run [Completed 0 None, Event (StasisStart ''c1''),
       Completed 1 None, Completed 2 None, Event (ChannelDtmfReceived ''c1'' ''5'')] boot)"
proof -
  let ?ins = "[Completed 0 None, Event (StasisStart ''c1''), Completed 1 None,
       Completed 2 None, Event (ChannelDtmfReceived ''c1'' ''5'')]"
  have w: "run ?ins boot = playing\<lparr>sent := sent playing @ [Control 0 ''pause''],
      pending := [(3, Control 0 ''pause'', CbControl)], next_id := 4,
      playback_states := (0, Paused) # playback_states playing\<rparr>"
    by (simp add: playing_eq) (simp add: run_defs)
  have look: "map_of (pending (run ?ins boot)) 3 = Some (Control 0 ''pause'', CbControl)"
    unfolding w by simp
  show ?thesis
    using control_errors_are_swallowed [OF look, of Timeout] look by blast
qed

text \<open>
  Claim C3, as stated, fails. When the playback has finished, it is in a terminal state
  and for the digit # the control operation fails with \<open>InvalidState\<close>: no control
  request is issued. And when play has completed with an error the
  listener holds no Playback handle, and for the digit # the call of
  \<open>playback.control\<close> at line 117 throws before \<open>hangup\<close> is called: neither request
  is issued.
\<close>

theorem hash_issues_no_stop_counterexample:
  "Control 0 ''stop'' \<notin> set (issued (Event (ChannelDtmfReceived ''c1'' ''#''))
       (run [Completed 0 None, Event (StasisStart ''c1''), Completed 1 None,
          Completed 2 None, Event (PlaybackFinished ''c1'' 0)] boot))
   \<and> failures (run [Completed 0 None, Event (StasisStart ''c1''), Completed 1 None,
       Completed 2 None, Event (PlaybackFinished ''c1'' 0),
       Event (ChannelDtmfReceived ''c1'' ''#'')] boot) = [InvalidState]
   \<and> chan_listeners (run [Completed 0 None, Event (StasisStart ''c1''), Completed 1 None,
       Completed 2 (Some Timeout)] boot)
     = [(''c1'', ''ChannelDtmfReceived'', CbDtmf None ''c1'')]
   \<and> exit_status (run [Completed 0 None, Event (StasisStart ''c1''), Completed 1 None,
       Completed 2 (Some Timeout)] boot) = None
   \<and> issued (Event (ChannelDtmfReceived ''c1'' ''#''))
       (run [Completed 0 None, Event (StasisStart ''c1''), Completed 1 None,
          Completed 2 (Some Timeout)] boot) = []
   \<and> uncaught (run [Completed 0 None, Event (StasisStart ''c1''), Completed 1 None,
       Completed 2 (Some Timeout), Event (ChannelDtmfReceived ''c1'' ''#'')] boot)
     = Some TypeError"
  by (simp add: run_defs)

text \<open>
  Claim C3, amended. In a reachable world where the process runs and the registered DTMF
  listener holds a Playback handle whose playback is not in a terminal state, an event
  with digit # on the channel makes the listener issue a control request with operation
  stop on the playback and then a hangup request on the incoming channel. The process
  still runs when the listener returns; it exits, with status 0,
  when the completion callback of that hangup request is invoked, and no step exits the
  process unless it invokes the completion callback of a hangup request.
\<close>

theorem hash_stops_and_hangs_up:
  assumes w: "w = run ins boot" and w': "w' = step (Event ev) w"
    and reg: "(c, t, CbDtmf (Some pb) incoming) \<in> set (chan_listeners w)"
    and running: "exit_status w = None"
    and ty: "ev_type ev = ''ChannelDtmfReceived''" and ch: "ev_channel ev = c"
    and digit: "ev_digit ev = ''#''"
    and live: "\<not> is_terminal w pb"
  shows "issued (Event ev) w = [Control pb ''stop'', Hangup incoming]
     \<and> map_of (pending w') (Suc (next_id w)) = Some (Hangup incoming, CbHangup)
     \<and> exit_status w' = None
     \<and> exit_status (step (Completed (Suc (next_id w)) err) w') = Some 0
     \<and> (\<forall>i. exit_status (step i w') \<noteq> None \<longrightarrow>
          (\<exists>k e ch. i = Completed k e \<and> map_of (pending w') k = Some (Hangup ch, CbHangup)))"
proof -
  have wf: "wf_world w" unfolding w by (rule wf_run)
  have d: "incoming = c" "chan_listeners w = [(c, ''ChannelDtmfReceived'', CbDtmf (Some pb) c)]"
    "step (Event ev) w = channelDtmfReceivedCallback (Some pb) c ev c w"
    using deliver_dtmf [OF wf running reg ty ch] by simp_all
  let ?w1 = "control pb ''stop'' CbControl w"
  have eq: "w' = hangup incoming CbHangup ?w1"
    unfolding w' d(3) using digit d(1) by (simp add: channelDtmfReceivedCallback_def)
  have w1: "sent ?w1 = sent w @ (if is_terminal w pb then [] else [Control pb ''stop''])"
    "next_id ?w1 = (if is_terminal w pb then next_id w else Suc (next_id w))"
    "pending ?w1 = pending w @
       (if is_terminal w pb then [] else [(next_id w, Control pb ''stop'', CbControl)])"
    "exit_status ?w1 = exit_status w" "chan_listeners ?w1 = chan_listeners w"
    by (simp_all add: control_def control_operations_def sendRequest_def transition_def
        set_state_def split: option.split)
  have fresh: "map_of (pending w) j = None" if "next_id w \<le> j" for j
  proof (cases "map_of (pending w) j")
    case None then show ?thesis .
  next
    case (Some rc)
    then have "(j, fst rc, snd rc) \<in> set (pending w)"
      using map_of_SomeD [of "pending w" j rc] by simp
    then have "j < next_id w" using wf_pending [OF wf] by blast
    then show ?thesis using that by simp
  qed
  have look: "map_of (pending w') (Suc (next_id w)) = Some (Hangup incoming, CbHangup)"
    unfolding eq using fresh [of "Suc (next_id w)"] live
    by (simp add: hangup_def sendRequest_def w1 map_add_def)
  have run': "exit_status w' = None"
    unfolding eq using running by (simp add: hangup_def sendRequest_def w1)
  have iss: "issued (Event ev) w = [Control pb ''stop'', Hangup incoming]"
    unfolding issued_def w' [symmetric] eq using live
    by (simp add: hangup_def sendRequest_def w1)
  have ex: "exit_status (step (Completed (Suc (next_id w)) err) w') = Some 0"
    using look run' by (simp add: step_def complete_def hangupCallback_def process_exit_def)
  have wf': "wf_world w'" unfolding w' using wf by (rule wf_step)
  have reg': "(c, t, CbDtmf (Some pb) incoming) \<in> set (chan_listeners w')"
    unfolding eq using reg by (simp add: hangup_def sendRequest_def w1)
  have only: "\<exists>k e ch. i = Completed k e \<and> map_of (pending w') k = Some (Hangup ch, CbHangup)"
    if "exit_status (step i w') \<noteq> None" for i
    using exit_by_hangup [OF wf' run' reg' that] by blast
  show ?thesis using iss look run' ex only by blast
qed

theorem hash_stops_and_hangs_up_witness:
  "(''c1'', ''ChannelDtmfReceived'', CbDtmf (Some 0) ''c1'') \<in> set (chan_listeners playing)
   \<and> exit_status playing = None
   \<and> is_terminal playing 0 = False
   \<and> issued (Event (ChannelDtmfReceived ''c1'' ''#'')) playing = [Control 0 ''stop'', Hangup ''c1'']
   \<and> exit_status (step (Event (ChannelDtmfReceived ''c1'' ''#'')) playing) = None
   \<and> exit_status (step (Completed (Suc (next_id playing)) None)
        (step (Event (ChannelDtmfReceived ''c1'' ''#'')) playing)) = Some 0"
proof -
  have reg: "(''c1'', ''ChannelDtmfReceived'', CbDtmf (Some 0) ''c1'') \<in> set (chan_listeners playing)"
    by (simp add: playing_eq)
  have running: "exit_status playing = None" by (simp add: playing_eq)
  have nt: "is_terminal playing 0 = False" by (simp add: playing_eq state_defs)
  show ?thesis
    using hash_stops_and_hangs_up
      [where ev = "ChannelDtmfReceived ''c1'' ''#''" and err = None,
         OF playing_def refl reg running]
      reg running nt
    by (simp add: ChannelDtmfReceived_def)
qed




text \<open>
  Claim C5. After connect, whatever arrives before the first StasisStart event triggers
  nothing. The first StasisStart event triggers the entry flow, once and on its channel:
  an answer request, then on its completion a play request, then on its completion the
  registration of the DTMF listener, which holds the Playback handle when play has
  completed without error and no handle otherwise. Whatever arrives afterwards, that
  answer request stays the only one, and a later StasisStart event finds no listener and
  leaves the world unchanged.
\<close>

theorem first_stasis_start_only:
  assumes pre: "\<forall>i \<in> set pre. \<not> is_StasisStart i" and first: "ev_type ev = ''StasisStart''"
  shows "answers (run pre connected) = []
     \<and> answers (run (pre @ Event ev # post) connected) = [Answer (ev_channel ev)]
     \<and> (\<forall>ev'. ev_type ev' = ''StasisStart'' \<longrightarrow>
           listeners_for ev' (run (pre @ Event ev # post) connected) = []
           \<and> step (Event ev') (run (pre @ Event ev # post) connected)
               = run (pre @ Event ev # post) connected)
     \<and> run (pre @ [Event ev, Completed 1 e1, Completed 2 e2]) connected =
         connected\<lparr>sent := sent connected @
             [Answer (ev_channel ev), Play (ev_channel ev) ''sound:demo-congrats'' 0],
           next_id := 3, once_listeners := [],
           chan_listeners :=
             [(ev_channel ev, ''ChannelDtmfReceived'',
               CbDtmf (case e2 of None \<Rightarrow> Some 0 | Some e \<Rightarrow> None) (ev_channel ev))],
           registry := [0], playback_states := [(0, Playing), (0, Created)],
           next_playback := 1\<rparr>"
proof -
  have idle: "run pre connected = connected" using pre by (rule connected_idle)
  let ?w1 = "step (Event ev) connected"
  have w1: "?w1 = connected\<lparr>sent := sent connected @ [Answer (ev_channel ev)],
      pending := [(1, Answer (ev_channel ev), CbAnswer (ev_channel ev))], next_id := 2,
      once_listeners := []\<rparr>"
    using first
    by (simp add: connected_eq step_def dispatch_def listeners_for_def emit_def finish_def
        stasisStartCallback_def answer_def sendRequest_def)
  have wf1: "wf_world ?w1" using wf_connected by (rule wf_step)
  have q1: "quiet ?w1" unfolding w1 by (simp add: quiet_def)
  have a1: "answers ?w1 = [Answer (ev_channel ev)]"
    unfolding w1 by (simp add: answers_def connected_eq)
  have split: "run (pre @ Event ev # post) connected = run post ?w1"
    by (simp add: run_append run_Cons idle)
  have q: "quiet (run post ?w1)" and a: "answers (run post ?w1) = [Answer (ev_channel ev)]"
    using quiet_run [OF wf1 q1, of post] a1 by simp_all
  have wf: "wf_world (run post ?w1)" using wf1 by (rule wf_run_from)
  have "answers connected = []" by (simp add: answers_def connected_eq)
  then have c1: "answers (run pre connected) = []" by (simp only: idle)
  have c3: "listeners_for ev' (run post ?w1) = [] \<and> step (Event ev') (run post ?w1) = run post ?w1"
    if "ev_type ev' = ''StasisStart''" for ev'
    using wf q that by (rule quiet_no_stasis_listener)
  have c4: "run (pre @ [Event ev, Completed 1 e1, Completed 2 e2]) connected =
         connected\<lparr>sent := sent connected @
             [Answer (ev_channel ev), Play (ev_channel ev) ''sound:demo-congrats'' 0],
           next_id := 3, once_listeners := [],
           chan_listeners :=
             [(ev_channel ev, ''ChannelDtmfReceived'',
               CbDtmf (case e2 of None \<Rightarrow> Some 0 | Some e \<Rightarrow> None) (ev_channel ev))],
           registry := [0], playback_states := [(0, Playing), (0, Created)],
           next_playback := 1\<rparr>"
    unfolding run_append idle run_Cons w1
    by (simp add: connected_eq run_def step_def complete_def result_def cb_defs op_defs)
  show ?thesis unfolding split using c1 a c3 c4 by blast
qed

theorem first_stasis_start_only_witness:
  "list_all (\<lambda>i. is_StasisStart i = False)
     [Event (ChannelDtmfReceived ''c0'' ''5''), Completed 7 None]
   \<and> ev_type (StasisStart ''c1'') = ''StasisStart''
   \<and> answers (run ([Event (ChannelDtmfReceived ''c0'' ''5''), Completed 7 None]
        @ Event (StasisStart ''c1'') # [Event (StasisStart ''c2''), Completed 1 None,
            Event (StasisStart ''c3'')]) connected) = [Answer ''c1'']"
proof -
  have pre: "\<forall>i \<in> set [Event (ChannelDtmfReceived ''c0'' ''5''), Completed 7 None].
      \<not> is_StasisStart i"
    by (simp add: ChannelDtmfReceived_def)
  have first: "ev_type (StasisStart ''c1'') = ''StasisStart''" by (simp add: StasisStart_def)
  show ?thesis
    using first_stasis_start_only [OF pre first,
        of "[Event (StasisStart ''c2''), Completed 1 None, Event (StasisStart ''c3'')]"]
      pre first
    by (simp add: StasisStart_def ChannelDtmfReceived_def)
qed

text \<open>
  Claim C6. A step issues a play request on a channel only when it delivers the
  completion of the outstanding answer request on that channel, that is, when it invokes
  the completion callback of answer; the answer request was issued before, and after the
  step no answer request on the channel is outstanding. In no reachable world are an
  answer request and a play request outstanding together.
\<close>

theorem play_only_after_answer_completed:
  "(Play c m p \<in> set (issued i (run ins boot)) \<longrightarrow>
     (\<exists>k err. i = Completed k err
        \<and> map_of (pending (run ins boot)) k = Some (Answer c, CbAnswer c)
        \<and> Answer c \<in> set (sent (run ins boot))
        \<and> (\<forall>k' cb. (k', Answer c, cb) \<notin> set (pending (step i (run ins boot))))))
   \<and> (\<forall>k1 cb1 k2 c2 m2 p2 cb2. (k1, Answer c, cb1) \<in> set (pending (run ins boot)) \<longrightarrow>
         (k2, Play c2 m2 p2, cb2) \<notin> set (pending (run ins boot)))"
proof (intro conjI impI allI)
  let ?w = "run ins boot"
  have wf: "wf_world ?w" by (rule wf_run)
  assume "Play c m p \<in> set (issued i ?w)"
  then obtain k err req c' where i: "i = Completed k err"
    and look: "map_of (pending ?w) k = Some (req, CbAnswer c')"
    and st: "step i ?w =
      channelAnswerCallback c' err (?w\<lparr>pending := filter (\<lambda>(k', _). k' \<noteq> k) (pending ?w)\<rparr>)"
    and pl: "Play c m p \<in> set (issued i ?w)"
    using play_issued [of c m p i ?w] by blast
  have "issued i ?w = [Play c' ''sound:demo-congrats'' (next_playback ?w)]"
    unfolding issued_def st by (simp add: answer_issues_play)
  then have c': "c' = c" using pl by simp
  have mem: "(k, req, CbAnswer c) \<in> set (pending ?w)"
    using look c' map_of_SomeD by fastforce
  have ok: "k < next_id ?w \<and> cb_ok req (CbAnswer c) \<and> req \<in> set (sent ?w)"
    using wf_pending [OF wf mem] .
  then have req: "req = Answer c" using cb_ok_answer by blast
  have gone: "(k', Answer c, cb) \<notin> set (pending (step i ?w))" for k' cb
  proof
    assume "(k', Answer c, cb) \<in> set (pending (step i ?w))"
    then have in_w: "(k', Answer c, cb) \<in> set (pending ?w)" and ne: "k' \<noteq> k"
      unfolding st by (auto simp: answer_issues_play)
    have "cb_ok (Answer c) cb" using wf_pending [OF wf in_w] by simp
    then have "is_flow cb" by simp
    then have "(k', Answer c, cb) = (k, req, CbAnswer c)"
      using one_flow [OF wf in_w _ mem] by simp
    then show False using ne by simp
  qed
  show "\<exists>k err. i = Completed k err
        \<and> map_of (pending ?w) k = Some (Answer c, CbAnswer c)
        \<and> Answer c \<in> set (sent ?w)
        \<and> (\<forall>k' cb. (k', Answer c, cb) \<notin> set (pending (step i ?w)))"
    using i look c' req ok gone by blast
next
  fix k1 cb1 k2 c2 m2 p2 cb2
  let ?w = "run ins boot"
  have wf: "wf_world ?w" by (rule wf_run)
  assume a: "(k1, Answer c, cb1) \<in> set (pending ?w)"
  show "(k2, Play c2 m2 p2, cb2) \<notin> set (pending ?w)"
  proof
    assume b: "(k2, Play c2 m2 p2, cb2) \<in> set (pending ?w)"
    have "is_flow cb1" using wf_pending [OF wf a] by simp
    moreover have "is_flow cb2" using wf_pending [OF wf b] by simp
    ultimately have "(k1, Answer c, cb1) = (k2, Play c2 m2 p2, cb2)"
      using one_flow [OF wf a _ b] by simp
    then show False by simp
  qed
qed

theorem play_only_after_answer_completed_witness:
  "Play ''c1'' ''sound:demo-congrats'' 0
     \<in> set (issued (Completed 1 None) (run [Completed 0 None, Event (StasisStart ''c1'')] boot))
   \<and> map_of (pending (run [Completed 0 None, Event (StasisStart ''c1'')] boot)) 1
       = Some (Answer ''c1'', CbAnswer ''c1'')"
proof -
  let ?w = "run [Completed 0 None, Event (StasisStart ''c1'')] boot"
  have pl: "Play ''c1'' ''sound:demo-congrats'' 0 \<in> set (issued (Completed 1 None) ?w)"
    by (simp add: run_defs)
  show ?thesis
    using play_only_after_answer_completed
      [of "''c1''" "''sound:demo-congrats''" 0 "Completed 1 None"
          "[Completed 0 None, Event (StasisStart ''c1'')]"] pl
    by auto
qed



text \<open>
  Claim C8, as stated, fails: the connect operation of the script takes the address, the
  user name and the secret, and no application name; when it has been issued no
  application is registered, and the registration is a separate start operation, issued
  when connect completes.
\<close>

theorem connect_registers_no_app_counterexample:
  "sent boot = [Connect ''http://ari.js:8088'' ''user'' ''secret'']
   \<and> ''playback-example'' \<notin> set (apps boot)
   \<and> Start ''playback-example'' \<in> set (issued (Completed 0 None) boot)"
  by (simp add: run_defs)

text \<open>
  Claim C8, amended. Connection establishment takes the server address, the credentials
  (user name and secret) and a callback as inputs of the connect operation, and registers
  no application name. The application name is registered by a separate start
  operation, which the connect callback issues after connect has completed, together
  with the StasisStart listener.
\<close>

theorem start_registers_the_app:
  "sent (main empty_world) = [Connect ''http://ari.js:8088'' ''user'' ''secret'']
   \<and> pending (main empty_world) =
        [(0, Connect ''http://ari.js:8088'' ''user'' ''secret'', CbConnect)]
   \<and> apps (main empty_world) = []
   \<and> issued (Completed 0 None) boot = [Start ''playback-example'']
   \<and> apps (step (Completed 0 None) boot) = [''playback-example'']
   \<and> once_listeners (step (Completed 0 None) boot) = [(''StasisStart'', CbStasisStart)]"
  by (simp add: run_defs)

end
